theory Spec2Isabelle
  imports Main "HOL-Library.Sublist"
begin

section \<open>Python values used by \<^verbatim>\<open>add_knowledge_remaining.py\<close>\<close>

text \<open>
  A Python \<^verbatim>\<open>str\<close> is a sequence of Unicode code points, so it is modelled as a list of
  natural numbers (a byte string would count a Cyrillic letter as two characters, and the
  anchor pattern below counts characters). Pure ASCII literals of the source are written
  with \<open>ascii\<close>; literals with Cyrillic text or emoji are written as their code points, one
  source line per row. The strings that the script handles are text that UTF-8 can
  encode: the file names of its list, and text decoded from UTF-8 files.
\<close>

type_synonym pystr = "nat list"

definition ascii :: "string \<Rightarrow> pystr" where
  "ascii s = map of_char s"

text \<open>\<^verbatim>\<open>sub in s\<close>: does \<open>sub\<close> occur in \<open>s\<close> as a contiguous run of characters?\<close>

fun py_in :: "pystr \<Rightarrow> pystr \<Rightarrow> bool" where
  "py_in sub [] = (sub = [])"
| "py_in sub (x # xs) = (prefix sub (x # xs) \<or> py_in sub xs)"

text \<open>\<^verbatim>\<open>str(n)\<close> for a non-negative integer: its decimal digits.\<close>

fun py_str :: "nat \<Rightarrow> pystr" where
  "py_str n = (if n < 10 then [48 + n] else py_str (n div 10) @ [48 + n mod 10])"

declare py_str.simps [simp del]

text \<open>
  \<^verbatim>\<open>s.replace(old, new)\<close>: every non-overlapping occurrence of \<open>old\<close>, scanning from the
  left, is replaced by \<open>new\<close>. With an empty \<open>old\<close> Python puts \<open>new\<close> before every character
  and at the end.
\<close>

function py_replace :: "pystr \<Rightarrow> pystr \<Rightarrow> pystr \<Rightarrow> pystr" where
  "py_replace old new [] = (if old = [] then new else [])"
| "py_replace old new (x # xs) =
     (if old = [] then new @ x # py_replace old new xs
      else if prefix old (x # xs)
           then new @ py_replace old new (drop (length old) (x # xs))
           else x # py_replace old new xs)"
  by pat_completeness auto
termination
  by (relation "measure (\<lambda>(old, new, s). length s)") (auto simp: Suc_le_eq)

text \<open>
  \<^verbatim>\<open>os.path.join(a, b)\<close> on a POSIX system: an absolute \<open>b\<close> replaces \<open>a\<close>; otherwise
  \<open>b\<close> is appended, with a separator unless \<open>a\<close> is empty or already ends with one.
\<close>

definition os_path_join :: "pystr \<Rightarrow> pystr \<Rightarrow> pystr" where
  "os_path_join a b =
     (if prefix [47] b then b
      else if a = [] \<or> last a = 47 then a @ b
      else a @ [47] @ b)"

text \<open>
  A file opened with \<^verbatim>\<open>open(path, 'r', encoding='utf-8')\<close> is read in text mode with
  universal newlines: a carriage return followed by a line feed, and a carriage return on
  its own, are both read as one line feed. (On writing, a line feed is written as the line
  separator of the platform, which on a POSIX system is the line feed itself.)
\<close>

fun universal_newlines :: "pystr \<Rightarrow> pystr" where
  "universal_newlines [] = []"
| "universal_newlines [c] = [if c = 13 then 10 else c]"
| "universal_newlines (c # d # cs) =
     (if c = 13 then (if d = 10 then 10 # universal_newlines cs
                      else 10 # universal_newlines (d # cs))
      else c # universal_newlines (d # cs))"

section \<open>The regular expression of the anchor search\<close>

text \<open>
  The source searches with \<^verbatim>\<open>re.search(r'(## [^#\n]+[^#]\n)', content)\<close>. The pattern is
  a sequence of single characters, negated character classes and one greedy \<^verbatim>\<open>+\<close> over
  a negated class; the group spans the whole pattern, so \<^verbatim>\<open>match.end()\<close> is the end of
  the whole match. A negated class matches a newline unless it lists it.
\<close>

datatype rx_item = Chr nat | NotOf "nat list" | PlusNotOf "nat list"

text \<open>
  \<open>rx_match r s\<close> matches \<open>r\<close> at the start of \<open>s\<close> the way a backtracking matcher does and
  returns the number of characters consumed. The greedy \<^verbatim>\<open>+\<close> first tries to take one
  more character; only when the rest of the pattern then fails does it stop earlier.
\<close>

fun rx_match :: "rx_item list \<Rightarrow> pystr \<Rightarrow> nat option" where
  "rx_match [] s = Some 0"
| "rx_match (Chr c # r) [] = None"
| "rx_match (Chr c # r) (x # xs) =
     (if x = c then map_option Suc (rx_match r xs) else None)"
| "rx_match (NotOf cs # r) [] = None"
| "rx_match (NotOf cs # r) (x # xs) =
     (if x \<in> set cs then None else map_option Suc (rx_match r xs))"
| "rx_match (PlusNotOf cs # r) [] = None"
| "rx_match (PlusNotOf cs # r) (x # xs) =
     (if x \<in> set cs then None
      else case rx_match (PlusNotOf cs # r) xs of
             Some n \<Rightarrow> Some (Suc n)
           | None \<Rightarrow> map_option Suc (rx_match r xs))"

text \<open>
  \<^verbatim>\<open>re.search\<close>: the match at the leftmost start position that has one, as the pair
  (\<^verbatim>\<open>match.start()\<close>, \<^verbatim>\<open>match.end()\<close>).
\<close>

fun re_search :: "rx_item list \<Rightarrow> pystr \<Rightarrow> (nat \<times> nat) option" where
  "re_search r [] = (case rx_match r [] of Some n \<Rightarrow> Some (0, n) | None \<Rightarrow> None)"
| "re_search r (x # xs) =
     (case rx_match r (x # xs) of
        Some n \<Rightarrow> Some (0, n)
      | None \<Rightarrow> map_option (\<lambda>(a, b). (Suc a, Suc b)) (re_search r xs))"

text \<open>\<^verbatim>\<open>pattern = r'(## [^#\n]+[^#]\n)'\<close>; 35 is \<^verbatim>\<open>#\<close>, 32 a space, 10 a newline.\<close>

definition pattern :: "rx_item list" where
  "pattern = [Chr 35, Chr 35, Chr 32, PlusNotOf [35, 10], NotOf [35], Chr 10]"

section \<open>The section that is inserted\<close>

text \<open>
  The literal tested with \<^verbatim>\<open>in content\<close>: three \<^verbatim>\<open>#\<close>, a space, an emoji and the
  Russian heading text.
\<close>

definition marker :: pystr where
  "marker = [35, 35, 35, 32, 127380, 32, 1047, 1085, 1072, 1085, 1080, 1077, 32, 1044, 1088,
    1091, 1075, 1080, 1093, 32, 1040, 1075, 1077, 1085, 1090, 1086, 1074]"

text \<open>
  An f-string is a sequence of literal pieces and replacement fields; \<^verbatim>\<open>{{\<close> and
  \<^verbatim>\<open>}}\<close> in the source are the literal braces 123 and 125. The only field of the
  template is \<^verbatim>\<open>{agent_name}\<close>, three times, so the template is four pieces of literal
  text with the field between them; each piece is written one source line per row.
\<close>

datatype fpart = Lit pystr | AgentName

fun render_part :: "pystr \<Rightarrow> fpart \<Rightarrow> pystr" where
  "render_part agent_name (Lit s) = s"
| "render_part agent_name AgentName = agent_name"

text \<open>
  The literal text from the opening line break to the quote before the first field
  (658 characters).
\<close>

definition section_part1 :: pystr where
  "section_part1 = concat
     [ [10],
       [35, 35, 35, 32, 127380, 32, 1047, 1085, 1072, 1085, 1080, 1077, 32, 1044, 1088,
       1091, 1075, 1080, 1093, 32, 1040, 1075, 1077, 1085, 1090, 1086, 1074, 10],
       [10],
       [42, 42, 1047, 1085, 1072, 1077, 1090, 32, 1080, 32, 1042, 1079, 1072, 1080, 1084,
       1086, 1076, 1077, 1081, 1089, 1090, 1074, 1091, 1077, 1090, 32, 1057, 58, 42, 42,
       10],
       [45, 32, 96, 118, 105, 98, 101, 45, 108, 101, 97, 100, 32, 40, 128081, 41, 32, 45,
       32, 1087, 1086, 1083, 1091, 1095, 1072, 1102, 32, 1086, 1090, 32, 1085, 1077, 1075,
       1086, 32, 1082, 1086, 1086, 1088, 1076, 1080, 1085, 1072, 1094, 1080, 1102, 96, 10],
       [45, 32, 96, 118, 105, 98, 101, 45, 115, 112, 101, 99, 32, 40, 128203, 41, 32, 45,
       32, 1084, 1086, 1075, 1091, 32, 1080, 1089, 1087, 1086, 1083, 1100, 1079, 1086,
       1074, 1072, 1090, 1100, 32, 1077, 1075, 1086, 32, 1089, 1087, 1077, 1094, 1080,
       1092, 1080, 1082, 1072, 1094, 1080, 1080, 96, 10],
       [45, 32, 96, 118, 105, 98, 101, 45, 116, 97, 115, 107, 101, 114, 32, 40, 9989, 41,
       32, 45, 32, 1087, 1086, 1083, 1091, 1095, 1072, 1102, 32, 1087, 1083, 1072, 1085,
       1080, 1088, 1086, 1074, 1072, 1085, 1080, 1077, 32, 1086, 1090, 32, 1085, 1077,
       1075, 1086, 96, 10],
       [45, 32, 96, 118, 105, 98, 101, 45, 99, 111, 100, 101, 114, 32, 40, 128187, 41, 32,
       45, 32, 1074, 1079, 1072, 1080, 1084, 1086, 1076, 1077, 1081, 1089, 1090, 1074,
       1091, 1102, 32, 1089, 32, 1077, 1075, 1086, 32, 1082, 1086, 1076, 1086, 1084, 96,
       10],
       [45, 32, 96, 118, 105, 98, 101, 45, 116, 101, 115, 116, 101, 114, 32, 40, 129514,
       41, 32, 45, 32, 1084, 1086, 1075, 1091, 32, 1080, 1089, 1087, 1086, 1083, 1100,
       1079, 1086, 1074, 1072, 1090, 1100, 32, 1077, 1075, 1086, 32, 1090, 1077, 1089,
       1090, 1099, 96, 10],
       [45, 32, 96, 118, 105, 98, 101, 45, 99, 114, 105, 116, 105, 99, 32, 40, 127917, 41,
       32, 45, 32, 1087, 1086, 1083, 1091, 1095, 1072, 1102, 32, 102, 101, 101, 100, 98,
       97, 99, 107, 32, 1087, 1086, 32, 1088, 1072, 1073, 1086, 1090, 1077, 96, 10],
       [10],
       [42, 42, 1055, 1086, 1083, 1091, 1095, 1072, 1077, 1090, 32, 1047, 1072, 1076,
       1072, 1095, 1080, 32, 1054, 1090, 58, 42, 42, 10],
       [45, 32, 96, 118, 105, 98, 101, 45, 108, 101, 97, 100, 32, 40, 128081, 41, 32, 45,
       32, 1087, 1086, 1083, 1091, 1095, 1072, 1102, 32, 1086, 1089, 1085, 1086, 1074,
       1085, 1099, 1077, 32, 1079, 1072, 1076, 1072, 1095, 1080, 96, 10],
       [45, 32, 96, 118, 105, 98, 101, 45, 113, 117, 101, 101, 110, 32, 40, 128029, 41,
       32, 45, 32, 1084, 1086, 1075, 1091, 32, 1087, 1086, 1083, 1091, 1095, 1080, 1090,
       1100, 32, 1079, 1072, 1076, 1072, 1095, 1080, 32, 1086, 1090, 32, 1075, 1083, 1072,
       1074, 1085, 1086, 1075, 1086, 32, 1082, 1086, 1086, 1088, 1076, 1080, 1085, 1072,
       1090, 1086, 1088, 1072, 96, 10],
       [45, 32, 1044, 1088, 1091, 1075, 1080, 1077, 32, 1072, 1075, 1077, 1085, 1090,
       1099, 32, 1084, 1086, 1075, 1091, 1090, 32, 1074, 1079, 1072, 1080, 1084, 1086,
       1076, 1077, 1081, 1089, 1090, 1074, 1086, 1074, 1072, 1090, 1100, 32, 1089, 1086,
       32, 1084, 1085, 1086, 1081, 10],
       [10],
       [42, 42, 1055, 1088, 1080, 1084, 1077, 1088, 32, 1042, 1079, 1072, 1080, 1084,
       1086, 1076, 1077, 1081, 1089, 1090, 1074, 1080, 1103, 58, 42, 42, 10],
       [96, 96, 96, 116, 121, 112, 101, 115, 99, 114, 105, 112, 116, 10],
       [47, 47, 32, 1047, 1072, 1087, 1091, 1089, 1082, 32, 1089, 32, 114, 101, 115, 117,
       109, 101, 32, 1076, 1083, 1103, 32, 1087, 1088, 1086, 1076, 1086, 1083, 1078, 1077,
       1085, 1080, 1103, 32, 1082, 1086, 1085, 1090, 1077, 1082, 1089, 1090, 1072, 10],
       [84, 97, 115, 107, 40, 123, 10],
       [32, 32, 115, 117, 98, 97, 103, 101, 110, 116, 95, 116, 121, 112, 101, 58, 32, 39] ]"

text \<open>The literal text between the first and the second field (30 characters).\<close>

definition section_part2 :: pystr where
  "section_part2 = concat
     [ [39, 44, 10],
       [32, 32, 100, 101, 115, 99, 114, 105, 112, 116, 105, 111, 110, 58, 32, 39, 1079,
       1072, 1076, 1072, 1095, 1072, 32, 1076, 1083, 1103, 32] ]"

text \<open>The literal text between the second and the third field (208 characters).\<close>

definition section_part3 :: pystr where
  "section_part3 = concat
     [ [39, 44, 10],
       [32, 32, 112, 114, 111, 109, 112, 116, 58, 32, 39, 1044, 1077, 1090, 1072, 1083,
       1080, 32, 1079, 1072, 1076, 1072, 1095, 1080, 46, 46, 46, 39, 44, 10],
       [32, 32, 114, 101, 115, 117, 109, 101, 58, 32, 39, 112, 114, 101, 118, 105, 111,
       117, 115, 45, 97, 103, 101, 110, 116, 45, 105, 100, 39, 32, 32, 47, 47, 32, 1055,
       1088, 1086, 1076, 1086, 1083, 1078, 1072, 1077, 1090, 32, 1088, 1072, 1073, 1086,
       1090, 1091, 32, 1087, 1088, 1077, 1076, 1099, 1076, 1091, 1097, 1077, 1075, 1086,
       32, 1072, 1075, 1077, 1085, 1090, 1072, 10],
       [125, 41, 59, 10],
       [10],
       [47, 47, 32, 1055, 1086, 1083, 1091, 1095, 1077, 1085, 1080, 1077, 32, 97, 103,
       101, 110, 116, 73, 100, 32, 1076, 1083, 1103, 32, 1087, 1086, 1089, 1083, 1077,
       1076, 1091, 1102, 1097, 1077, 1075, 1086, 32, 1080, 1089, 1087, 1086, 1083, 1100,
       1079, 1086, 1074, 1072, 1085, 1080, 1103, 10],
       [99, 111, 110, 115, 116, 32, 97, 103, 101, 110, 116, 73, 100, 32, 61, 32, 97, 119,
       97, 105, 116, 32, 84, 97, 115, 107, 40, 123, 10],
       [32, 32, 115, 117, 98, 97, 103, 101, 110, 116, 95, 116, 121, 112, 101, 58, 32, 39] ]"

text \<open>
  The literal text from the quote after the third field to the closing code fence
  (42 characters).
\<close>

definition section_part4 :: pystr where
  "section_part4 = concat
     [ [39, 44, 10],
       [32, 32, 100, 101, 115, 99, 114, 105, 112, 116, 105, 111, 110, 58, 32, 39, 1053,
       1072, 1095, 1072, 1090, 1100, 32, 1088, 1072, 1073, 1086, 1090, 1091, 39, 10],
       [125, 41, 59, 10],
       [96, 96, 96, 10] ]"

definition knowledge_section_template :: "fpart list" where
  "knowledge_section_template =
     [Lit section_part1, AgentName, Lit section_part2, AgentName, Lit section_part3, AgentName,
      Lit section_part4]"

definition knowledge_section :: "pystr \<Rightarrow> pystr" where
  "knowledge_section agent_name = concat (map (render_part agent_name) knowledge_section_template)"

section \<open>Files and standard output\<close>

text \<open>
  The script looks paths up, reads and writes files, and prints lines. A path names an
  object of the file system, and several paths may name the same object (\<^verbatim>\<open>x.md\<close> and
  \<^verbatim>\<open>./x.md\<close>, or links), so the world maps paths to file identifiers and identifiers to
  what is stored there. A path whose identifier has no object is a dangling link.
  An object is a text file that can be read and written, holding the characters that its
  bytes decode to as UTF-8 (before any newline translation); a text file that can be read
  but not written; a file that may not be read; a file whose bytes are not UTF-8; or a
  directory. Standard output is the list of strings printed so far, one entry for each
  \<^verbatim>\<open>print\<close> call, and accepts every character. The platform is taken to be POSIX
  (path separator \<^verbatim>\<open>/\<close>, line separator line feed).
\<close>

type_synonym file_id = nat

datatype node =
    TextFile pystr
  | ReadOnlyFile pystr
  | NoAccessFile
  | BinaryFile
  | Directory

record world =
  names :: "pystr \<rightharpoonup> file_id"
  nodes :: "file_id \<rightharpoonup> node"
  stdout :: "pystr list"

text \<open>The exceptions that \<^verbatim>\<open>open\<close>, \<^verbatim>\<open>read\<close> and \<^verbatim>\<open>write\<close> raise, with the path.\<close>

datatype error =
    FileNotFoundError pystr
  | IsADirectoryError pystr
  | PermissionError pystr
  | UnicodeDecodeError pystr

definition print :: "pystr \<Rightarrow> world \<Rightarrow> world" where
  "print s w = w\<lparr>stdout := stdout w @ [s]\<rparr>"

text \<open>\<^verbatim>\<open>os.path.exists\<close> follows links: it holds when the path names an object.\<close>

definition os_path_exists :: "world \<Rightarrow> pystr \<Rightarrow> bool" where
  "os_path_exists w p =
     (case names w p of None \<Rightarrow> False | Some i \<Rightarrow> nodes w i \<noteq> None)"

text \<open>
  \<^verbatim>\<open>with open(file_path, 'r', encoding='utf-8') as f: content = f.read()\<close>: the text of
  the file with universal newlines, or the exception of \<^verbatim>\<open>open\<close> or \<^verbatim>\<open>read\<close>.
\<close>

definition read_text :: "world \<Rightarrow> pystr \<Rightarrow> error + pystr" where
  "read_text w file_path =
     (case names w file_path of
        None \<Rightarrow> Inl (FileNotFoundError file_path)
      | Some i \<Rightarrow>
          (case nodes w i of
             None \<Rightarrow> Inl (FileNotFoundError file_path)
           | Some (TextFile raw) \<Rightarrow> Inr (universal_newlines raw)
           | Some (ReadOnlyFile raw) \<Rightarrow> Inr (universal_newlines raw)
           | Some NoAccessFile \<Rightarrow> Inl (PermissionError file_path)
           | Some BinaryFile \<Rightarrow> Inl (UnicodeDecodeError file_path)
           | Some Directory \<Rightarrow> Inl (IsADirectoryError file_path)))"

text \<open>
  \<^verbatim>\<open>with open(file_path, 'w', encoding='utf-8') as f: f.write(new_content)\<close>: the object
  that the path names is replaced by a text file with the new content. Opening a path that
  names no object would create a file if its directory exists; directories' entries are
  not part of the world, and the script writes only to a path that it has just read, so
  that case is given the exception of a missing directory.
\<close>

definition write_text :: "world \<Rightarrow> pystr \<Rightarrow> pystr \<Rightarrow> error + world" where
  "write_text w file_path new_content =
     (case names w file_path of
        None \<Rightarrow> Inl (FileNotFoundError file_path)
      | Some i \<Rightarrow>
          (case nodes w i of
             None \<Rightarrow> Inl (FileNotFoundError file_path)
           | Some (TextFile raw) \<Rightarrow> Inr (w\<lparr>nodes := (nodes w)(i \<mapsto> TextFile new_content)\<rparr>)
           | Some (ReadOnlyFile raw) \<Rightarrow> Inl (PermissionError file_path)
           | Some NoAccessFile \<Rightarrow> Inl (PermissionError file_path)
           | Some BinaryFile \<Rightarrow> Inr (w\<lparr>nodes := (nodes w)(i \<mapsto> TextFile new_content)\<rparr>)
           | Some Directory \<Rightarrow> Inl (IsADirectoryError file_path)))"

text \<open>The four messages of the source about one file, and the closing summary.\<close>

definition msg_exists :: "pystr \<Rightarrow> pystr" where
  "msg_exists file_path = [9888, 65039, 32] @ file_path @
     [58, 32, 1089, 1077, 1082, 1094, 1080, 1103, 32, 1091, 1078, 1077, 32, 1089, 1091, 1097,
      1077, 1089, 1090, 1074, 1091, 1077, 1090]"

definition msg_no_place :: "pystr \<Rightarrow> pystr" where
  "msg_no_place file_path = [10060, 32] @ file_path @
     [58, 32, 1085, 1077, 32, 1085, 1072, 1081, 1076, 1077, 1085, 1086, 32, 1084, 1077, 1089,
      1090, 1086, 32, 1076, 1083, 1103, 32, 1074, 1089, 1090, 1072, 1074, 1082, 1080]"

definition msg_added :: "pystr \<Rightarrow> pystr" where
  "msg_added file_path = [9989, 32] @ file_path @
     [58, 32, 1076, 1086, 1073, 1072, 1074, 1083, 1077, 1085, 1072, 32, 1089, 1077, 1082, 1094,
      1080, 1103, 32, 1079, 1085, 1072, 1085, 1080, 1103]"

definition msg_not_found :: "pystr \<Rightarrow> pystr" where
  "msg_not_found file_path =
     [9888, 65039, 32, 1060, 1072, 1081, 1083, 32, 1085, 1077, 32, 1085, 1072, 1081, 1076,
      1077, 1085, 58, 32] @ file_path"

definition msg_summary :: "nat \<Rightarrow> nat \<Rightarrow> pystr" where
  "msg_summary updated_count n_agents =
     [10, 127881, 32, 1054, 1073, 1085, 1086, 1074, 1083, 1077, 1085, 1086, 32, 1072, 1075,
      1077, 1085, 1090, 1086, 1074, 58, 32] @ py_str updated_count @ [47] @ py_str n_agents"

section \<open>\<^verbatim>\<open>add_knowledge_section\<close>\<close>

text \<open>
  The function reads the file, returns \<^verbatim>\<open>False\<close> when the marker is already in the
  text, returns \<^verbatim>\<open>False\<close> when the pattern matches nowhere, and otherwise writes the
  text with the rendered section spliced in at \<^verbatim>\<open>match.end()\<close>, prints and returns
  \<^verbatim>\<open>True\<close>. \<^verbatim>\<open>content[:i]\<close> and \<^verbatim>\<open>content[i:]\<close> are \<open>take i\<close> and \<open>drop i\<close>. The
  function catches no exception.
\<close>

definition add_knowledge_section :: "world \<Rightarrow> pystr \<Rightarrow> pystr \<Rightarrow> error + (bool \<times> world)" where
  "add_knowledge_section w file_path agent_name =
     (case read_text w file_path of
        Inl e \<Rightarrow> Inl e
      | Inr content \<Rightarrow>
          if py_in marker content then Inr (False, print (msg_exists file_path) w)
          else (case re_search pattern content of
                  None \<Rightarrow> Inr (False, print (msg_no_place file_path) w)
                | Some (match_start, insert_pos) \<Rightarrow>
                    let new_content = take insert_pos content @ knowledge_section agent_name
                                        @ drop insert_pos content
                    in (case write_text w file_path new_content of
                          Inl e \<Rightarrow> Inl e
                        | Inr w' \<Rightarrow> Inr (True, print (msg_added file_path) w'))))"

section \<open>\<^verbatim>\<open>main\<close>\<close>

definition REMAINING_AGENTS :: "pystr list" where
  "REMAINING_AGENTS =
     [ascii ''vibe-elizaos.md'', ascii ''vibe-ai-llm.md'', ascii ''vibe-mcp.md'',
      ascii ''vibe-sentry.md'', ascii ''vibe-langfuse.md'', ascii ''vibe-roi.md'',
      ascii ''vibe-updater.md'', ascii ''vibe-knowledge-keeper.md'',
      ascii ''vibe-diagnostics.md'', ascii ''vibe-learn.md'', ascii ''vibe-queen.md'',
      ascii ''vibe-cicd.md'']"

definition agents_dir :: pystr where
  "agents_dir = ascii ''.claude/agents/''"

text \<open>
  The loop of \<^verbatim>\<open>main\<close> over a list of file names, threading the world and
  \<^verbatim>\<open>updated_count\<close>. An exception of \<^verbatim>\<open>add_knowledge_section\<close> is not caught: it ends
  the loop and the program, and nothing more is printed.
\<close>

fun main_loop :: "pystr list \<Rightarrow> world \<Rightarrow> nat \<Rightarrow> error + (world \<times> nat)" where
  "main_loop [] w updated_count = Inr (w, updated_count)"
| "main_loop (filename # rest) w updated_count =
     (let file_path = os_path_join agents_dir filename in
      if os_path_exists w file_path then
        (let agent_name = py_replace (ascii ''.md'') [] filename in
         case add_knowledge_section w file_path agent_name of
           Inl e \<Rightarrow> Inl e
         | Inr (inserted, w') \<Rightarrow>
             main_loop rest w' (if inserted then updated_count + 1 else updated_count))
      else main_loop rest (print (msg_not_found file_path) w) updated_count)"

text \<open>\<^verbatim>\<open>main\<close> for a given list of names; the source runs it on \<open>REMAINING_AGENTS\<close>.\<close>

definition main_on :: "pystr list \<Rightarrow> world \<Rightarrow> error + world" where
  "main_on agents w =
     (case main_loop agents w 0 of
        Inl e \<Rightarrow> Inl e
      | Inr (w', updated_count) \<Rightarrow>
          Inr (print (msg_summary updated_count (length agents)) w'))"

definition main :: "world \<Rightarrow> error + world" where
  "main w = main_on REMAINING_AGENTS w"

section \<open>Auxiliary definitions for the statements\<close>

text \<open>The part of \<open>pattern\<close> after the literal \<^verbatim>\<open>## \<close>.\<close>

definition title_rest :: "rx_item list" where
  "title_rest = [PlusNotOf [35, 10], NotOf [35], Chr 10]"

text \<open>
  Example documents: \<open>unlines\<close> ends every line with a line feed, \<open>crlf_lines\<close> with a
  carriage return and a line feed, and \<open>one_file\<close> is a world with one writable text file
  under one path and nothing printed yet.
\<close>

definition unlines :: "string list \<Rightarrow> pystr" where
  "unlines ls = concat (map (\<lambda>l. ascii l @ [10]) ls)"

definition crlf_lines :: "string list \<Rightarrow> pystr" where
  "crlf_lines ls = concat (map (\<lambda>l. ascii l @ [13, 10]) ls)"

definition one_file :: "pystr \<Rightarrow> pystr \<Rightarrow> world" where
  "one_file file_path content =
     \<lparr>names = [file_path \<mapsto> 0], nodes = [0 \<mapsto> TextFile content], stdout = []\<rparr>"

definition doc_section :: pystr where
  "doc_section = unlines [''# Title'', ''## Section'', ''Body text'']"

definition doc_section_crlf :: pystr where
  "doc_section_crlf = crlf_lines [''# Title'', ''## Section'', ''Body text'']"

definition doc_blank_after_heading :: pystr where
  "doc_blank_after_heading = unlines [''# Title'', ''## Section'', '''', ''Body text'']"

definition doc_level3_first :: pystr where
  "doc_level3_first = unlines [''# Title'', ''### Details'', ''text'', ''## Section'', ''Body text'']"

definition doc_level3_only :: pystr where
  "doc_level3_only = unlines [''# Title'', ''### Details'', ''text'']"

definition doc_midline :: pystr where
  "doc_midline = unlines [''# Title'', ''see ## here'', ''## Section'', ''Body text'']"

definition doc_title_only :: pystr where
  "doc_title_only = unlines [''# Title'', ''Body text'']"

definition doc_one_char_title :: pystr where
  "doc_one_char_title = unlines [''# Title'', ''## A'', ''Body text'']"




definition would_insert :: "world \<Rightarrow> file_id \<Rightarrow> bool" where
  "would_insert w i =
     (case nodes w i of
        Some (TextFile raw) \<Rightarrow>
          \<not> py_in marker (universal_newlines raw)
          \<and> re_search pattern (universal_newlines raw) \<noteq> None
      | _ \<Rightarrow> False)"







section \<open>The line formatter\<close>

text \<open>
  Modelled from the spec: the LineFormatter and its operation \<^verbatim>\<open>format\<close> (section 4.1 of
  the specification). The file that implements it is not among the sources, so every
  definition of this section follows the words of section 4.1, step by step.
\<close>

text \<open>
  Modelled from the spec: "whitespace character". The specification does not list them;
  these are the code points for which Python's \<^verbatim>\<open>str.isspace\<close> holds. The proofs use only
  that the space 32 is one and that \<^verbatim>\<open>#\<close> is not.
\<close>

definition is_space :: "nat \<Rightarrow> bool" where
  "is_space c =
     (c \<in> {9, 10, 11, 12, 13, 28, 29, 30, 31, 32, 133, 160, 5760, 8232, 8233, 8239, 8287, 12288}
      \<or> (8192 \<le> c \<and> c \<le> 8202))"

text \<open>
  Modelled from the spec: step 1, "split input on newline boundaries into an ordered
  sequence of lines", and step 4, "join the surviving lines with newline separators".
\<close>

fun split_lines :: "pystr \<Rightarrow> pystr list" where
  "split_lines [] = [[]]"
| "split_lines (c # cs) =
     (if c = 10 then [] # split_lines cs
      else case split_lines cs of [] \<Rightarrow> [[c]] | l # ls \<Rightarrow> (c # l) # ls)"

fun join_lines :: "pystr list \<Rightarrow> pystr" where
  "join_lines [] = []"
| "join_lines [l] = l"
| "join_lines (l # m # ls) = l @ 10 # join_lines (m # ls)"

text \<open>
  Modelled from the spec: "trim leading/trailing whitespace", and "a line is blank iff its
  trimmed form has zero length".
\<close>

fun rstrip :: "pystr \<Rightarrow> pystr" where
  "rstrip [] = []"
| "rstrip (c # cs) = (if rstrip cs = [] \<and> is_space c then [] else c # rstrip cs)"

definition trim :: "pystr \<Rightarrow> pystr" where
  "trim l = rstrip (dropWhile is_space l)"

definition blank :: "pystr \<Rightarrow> bool" where
  "blank l = (trim l = [])"

text \<open>
  Modelled from the spec: the heading pattern, "1-6 \<^verbatim>\<open>#\<close> characters at line start,
  followed by at least one whitespace character". The level is the number of \<^verbatim>\<open>#\<close>;
  0 stands for a line that is no heading.
\<close>

definition heading_level :: "pystr \<Rightarrow> nat" where
  "heading_level l =
     (let n = length (takeWhile (\<lambda>c. c = 35) l) in
      if 1 \<le> n \<and> n \<le> 6 \<and> (case drop n l of [] \<Rightarrow> False | c # cs \<Rightarrow> is_space c)
      then n else 0)"

text \<open>
  Modelled from the spec: step 2a, "collapse all internal runs of whitespace in the entire
  line to a single space". The flag says that the previous character was whitespace.
\<close>

fun collapse_all :: "bool \<Rightarrow> pystr \<Rightarrow> pystr" where
  "collapse_all in_run [] = []"
| "collapse_all in_run (c # cs) =
     (if is_space c
      then (if in_run then collapse_all True cs else 32 # collapse_all True cs)
      else c # collapse_all False cs)"

text \<open>
  Modelled from the spec: step 2b, "collapse any run of 2+ consecutive whitespace
  characters anywhere in the line to a single space". A whitespace character on its own
  stays as it is.
\<close>

function collapse_runs :: "pystr \<Rightarrow> pystr" where
  "collapse_runs [] = []"
| "collapse_runs [c] = [c]"
| "collapse_runs (c # d # cs) =
     (if is_space c \<and> is_space d then 32 # collapse_runs (dropWhile is_space cs)
      else c # collapse_runs (d # cs))"
  by pat_completeness auto
termination
proof (relation "measure length")
  fix c d :: nat and cs :: pystr
  have "length (dropWhile is_space cs) \<le> length cs" by (rule length_dropWhile_le)
  then show "(dropWhile is_space cs, c # d # cs) \<in> measure length" by simp
qed simp_all

text \<open>Modelled from the spec: steps 2a and 2b on one line.\<close>

definition normalize_line :: "pystr \<Rightarrow> pystr" where
  "normalize_line l =
     collapse_runs (if 1 \<le> heading_level l then trim (collapse_all False l) else l)"

text \<open>
  Modelled from the spec: step 2, the first pass. "If the line is a heading of level 1-3
  AND the previously emitted line is non-blank, emit one blank line before emitting this
  heading line"; then "emit the (possibly modified) line". The flag says that a line was
  emitted before and is not blank; at the start nothing was emitted.
\<close>

fun emit_lines :: "bool \<Rightarrow> pystr list \<Rightarrow> pystr list" where
  "emit_lines prev_nonblank [] = []"
| "emit_lines prev_nonblank (l # ls) =
     (let l' = normalize_line l in
      (if 1 \<le> heading_level l' \<and> heading_level l' \<le> 3 \<and> prev_nonblank then [[]] else [])
        @ l' # emit_lines (\<not> blank l') ls)"

text \<open>
  Modelled from the spec: step 3, the second pass, "drop any line that is blank when the
  immediately preceding kept line was also blank". The flag says that the previously kept
  line was blank.
\<close>

fun drop_repeated_blanks :: "bool \<Rightarrow> pystr list \<Rightarrow> pystr list" where
  "drop_repeated_blanks prev_blank [] = []"
| "drop_repeated_blanks prev_blank (l # ls) =
     (if blank l
      then (if prev_blank then drop_repeated_blanks True ls
            else l # drop_repeated_blanks True ls)
      else l # drop_repeated_blanks False ls)"

text \<open>Modelled from the spec: the contract \<^verbatim>\<open>format(text: string) -> string\<close>.\<close>

definition format :: "pystr \<Rightarrow> pystr" where
  "format t = join_lines (drop_repeated_blanks False (emit_lines False (split_lines t)))"

text \<open>
  Predicates for the proofs about \<open>format\<close>: a line in which every whitespace character is
  a single space between other characters (the flag forbids a leading space), a line
  without two whitespace characters in a row, and a sequence of lines that the first pass
  leaves as it is.
\<close>

fun spaced :: "bool \<Rightarrow> pystr \<Rightarrow> bool" where
  "spaced after_space [] = True"
| "spaced after_space (c # cs) =
     (if is_space c then \<not> after_space \<and> c = 32 \<and> spaced True cs else spaced False cs)"

fun no_run :: "pystr \<Rightarrow> bool" where
  "no_run [] = True"
| "no_run [c] = True"
| "no_run (c # d # cs) = (\<not> (is_space c \<and> is_space d) \<and> no_run (d # cs))"

fun settled :: "bool \<Rightarrow> pystr list \<Rightarrow> bool" where
  "settled prev_nonblank [] = True"
| "settled prev_nonblank (l # ls) =
     (normalize_line l = l
      \<and> \<not> (1 \<le> heading_level l \<and> heading_level l \<le> 3 \<and> prev_nonblank)
      \<and> settled (\<not> blank l) ls)"
section \<open>Substring test and pattern search\<close>

lemma py_in_iff: "py_in sub s \<longleftrightarrow> (\<exists>pre post. s = pre @ sub @ post)"
proof (induction s)
  case Nil
  show ?case by auto
next
  case (Cons x xs)
  show ?case
  proof
    assume "py_in sub (x # xs)"
    then consider "prefix sub (x # xs)" | "py_in sub xs" by auto
    then show "\<exists>pre post. x # xs = pre @ sub @ post"
    proof cases
      case 1
      then obtain post where "x # xs = sub @ post" by (auto simp: prefix_def)
      then have "x # xs = [] @ sub @ post" by simp
      then show ?thesis by blast
    next
      case 2
      with Cons.IH obtain pre post where "xs = pre @ sub @ post" by blast
      then have "x # xs = (x # pre) @ sub @ post" by simp
      then show ?thesis by blast
    qed
  next
    assume "\<exists>pre post. x # xs = pre @ sub @ post"
    then obtain pre post where eq: "x # xs = pre @ sub @ post" by blast
    show "py_in sub (x # xs)"
    proof (cases pre)
      case Nil
      with eq have "prefix sub (x # xs)" by (simp add: prefix_def)
      then show ?thesis by simp
    next
      case (Cons y pre')
      with eq have "xs = pre' @ sub @ post" by simp
      with Cons.IH have "py_in sub xs" by blast
      then show ?thesis by simp
    qed
  qed
qed

lemma rx_match_le: "rx_match r s = Some n \<Longrightarrow> n \<le> length s"
  by (induction r s arbitrary: n rule: rx_match.induct) (auto split: if_splits option.splits)

lemma re_search_le: "re_search r s = Some (a, e) \<Longrightarrow> a \<le> e \<and> e \<le> length s"
  by (induction r s arbitrary: a e rule: re_search.induct)
     (auto split: option.splits dest: rx_match_le)


lemma rx_last_two:
  "rx_match [NotOf [35], Chr 10] s = Some n \<longleftrightarrow> (\<exists>c post. s = c # 10 # post \<and> c \<noteq> 35 \<and> n = 2)"
  by (cases s; cases "tl s") auto

lemma title_rest_sound:
  "rx_match title_rest s = Some n \<Longrightarrow>
   \<exists>title c post. s = title @ c # 10 # post \<and> title \<noteq> [] \<and> 35 \<notin> set title \<and> 10 \<notin> set title
      \<and> c \<noteq> 35 \<and> n = length title + 2"
proof (induction s arbitrary: n)
  case Nil
  then show ?case by (simp add: title_rest_def)
next
  case (Cons x xs)
  from Cons.prems have x: "x \<noteq> 35" "x \<noteq> 10"
    by (auto simp: title_rest_def split: if_splits)
  show ?case
  proof (cases "rx_match title_rest xs")
    case (Some m)
    with Cons.prems x have n: "n = Suc m" by (auto simp: title_rest_def)
    from Cons.IH[OF Some] obtain title c post where
      "xs = title @ c # 10 # post" "title \<noteq> []" "35 \<notin> set title" "10 \<notin> set title"
      "c \<noteq> 35" "m = length title + 2" by blast
    with x n have "x # xs = (x # title) @ c # 10 # post \<and> x # title \<noteq> [] \<and> 35 \<notin> set (x # title)
       \<and> 10 \<notin> set (x # title) \<and> c \<noteq> 35 \<and> n = length (x # title) + 2" by auto
    then show ?thesis by blast
  next
    case None
    with Cons.prems x have "map_option Suc (rx_match [NotOf [35], Chr 10] xs) = Some n"
      by (auto simp: title_rest_def)
    then obtain k where k: "rx_match [NotOf [35], Chr 10] xs = Some k" "n = Suc k" by auto
    from k(1) obtain c post where "xs = c # 10 # post" "c \<noteq> 35" "k = 2"
      unfolding rx_last_two by blast
    with x k have "x # xs = [x] @ c # 10 # post \<and> [x] \<noteq> [] \<and> 35 \<notin> set [x]
       \<and> 10 \<notin> set [x] \<and> c \<noteq> 35 \<and> n = length [x] + 2" by auto
    then show ?thesis by blast
  qed
qed

lemma title_rest_complete:
  "title \<noteq> [] \<Longrightarrow> 35 \<notin> set title \<Longrightarrow> 10 \<notin> set title \<Longrightarrow> c \<noteq> 35 \<Longrightarrow>
   rx_match title_rest (title @ c # 10 # post) \<noteq> None"
proof (induction title)
  case Nil
  then show ?case by simp
next
  case (Cons x t)
  show ?case
  proof (cases t)
    case Nil
    with Cons.prems show ?thesis by (auto simp: title_rest_def split: option.splits)
  next
    case (Cons y t')
    with Cons.prems Cons.IH have "rx_match title_rest (t @ c # 10 # post) \<noteq> None" by auto
    with Cons.prems show ?thesis by (auto simp: title_rest_def split: option.splits)
  qed
qed

lemma pattern_match_iff:
  "rx_match pattern s = Some n \<longleftrightarrow>
     (\<exists>m rest. s = 35 # 35 # 32 # rest \<and> rx_match title_rest rest = Some m \<and> n = m + 3)"
  by (cases s; cases "tl s"; cases "tl (tl s)") (auto simp: pattern_def title_rest_def)

lemma pattern_sound:
  assumes "rx_match pattern s = Some n"
  shows "\<exists>title c post. s = [35, 35, 32] @ title @ c # 10 # post \<and> title \<noteq> [] \<and> 35 \<notin> set title
           \<and> 10 \<notin> set title \<and> c \<noteq> 35 \<and> n = length title + 5"
proof -
  from assms obtain m rest where r: "s = 35 # 35 # 32 # rest" "rx_match title_rest rest = Some m"
    "n = m + 3" unfolding pattern_match_iff by blast
  from title_rest_sound[OF r(2)] obtain title c post where
    "rest = title @ c # 10 # post" "title \<noteq> []" "35 \<notin> set title" "10 \<notin> set title"
    "c \<noteq> 35" "m = length title + 2" by blast
  with r show ?thesis by auto
qed

lemma pattern_complete:
  assumes "title \<noteq> []" "35 \<notin> set title" "10 \<notin> set title" "c \<noteq> 35"
  shows "rx_match pattern ([35, 35, 32] @ title @ c # 10 # post) \<noteq> None"
proof -
  from title_rest_complete[OF assms] obtain m where
    "rx_match title_rest (title @ c # 10 # post) = Some m" by blast
  then have "rx_match pattern ([35, 35, 32] @ title @ c # 10 # post) = Some (m + 3)"
    unfolding pattern_match_iff by simp
  then show ?thesis by simp
qed

lemma re_search_sound:
  "re_search pattern s = Some (a, e) \<Longrightarrow>
   \<exists>pre title c post. s = pre @ [35, 35, 32] @ title @ c # 10 # post \<and> title \<noteq> []
      \<and> 35 \<notin> set title \<and> 10 \<notin> set title \<and> c \<noteq> 35
      \<and> a = length pre \<and> e = length pre + length title + 5"
proof (induction s arbitrary: a e)
  case Nil
  then show ?case by (simp add: pattern_def)
next
  case (Cons x xs)
  show ?case
  proof (cases "rx_match pattern (x # xs)")
    case (Some n)
    with Cons.prems have ae: "a = 0" "e = n" by auto
    from pattern_sound[OF Some] obtain title c post where
      "x # xs = [35, 35, 32] @ title @ c # 10 # post" "title \<noteq> []" "35 \<notin> set title"
      "10 \<notin> set title" "c \<noteq> 35" "n = length title + 5" by blast
    with ae have "x # xs = [] @ [35, 35, 32] @ title @ c # 10 # post \<and> title \<noteq> []
      \<and> 35 \<notin> set title \<and> 10 \<notin> set title \<and> c \<noteq> 35
      \<and> a = length ([]::nat list) \<and> e = length ([]::nat list) + length title + 5" by simp
    then show ?thesis by blast
  next
    case None
    with Cons.prems obtain a' e' where s: "re_search pattern xs = Some (a', e')"
      "a = Suc a'" "e = Suc e'" by auto
    from Cons.IH[OF s(1)] obtain pre title c post where
      "xs = pre @ [35, 35, 32] @ title @ c # 10 # post" "title \<noteq> []" "35 \<notin> set title"
      "10 \<notin> set title" "c \<noteq> 35" "a' = length pre" "e' = length pre + length title + 5"
      by blast
    with s have "x # xs = (x # pre) @ [35, 35, 32] @ title @ c # 10 # post \<and> title \<noteq> []
      \<and> 35 \<notin> set title \<and> 10 \<notin> set title \<and> c \<noteq> 35
      \<and> a = length (x # pre) \<and> e = length (x # pre) + length title + 5" by simp
    then show ?thesis by blast
  qed
qed

lemma re_search_complete:
  assumes "title \<noteq> []" "35 \<notin> set title" "10 \<notin> set title" "c \<noteq> 35"
  shows "re_search pattern (pre @ [35, 35, 32] @ title @ c # 10 # post) \<noteq> None"
proof (induction pre)
  case Nil
  from pattern_complete[OF assms] obtain n where
    "rx_match pattern (35 # 35 # 32 # title @ c # 10 # post) = Some n" by auto
  then show ?case by simp
next
  case (Cons x pre)
  then show ?case by (cases "rx_match pattern (x # pre @ [35, 35, 32] @ title @ c # 10 # post)") auto
qed


section \<open>Universal newlines\<close>

lemma universal_newlines_no_cr: "13 \<notin> set (universal_newlines s)"
  by (induction s rule: universal_newlines.induct) auto

lemma universal_newlines_id: "13 \<notin> set s \<Longrightarrow> universal_newlines s = s"
  by (induction s rule: universal_newlines.induct) auto

text \<open>
  Translation is local: a piece of text that has no carriage return and does not begin with
  a line feed is read as it is, wherever it stands.
\<close>

lemma universal_newlines_append:
  "x \<noteq> [] \<Longrightarrow> hd x \<noteq> 10 \<Longrightarrow>
   universal_newlines (pre @ x) = universal_newlines pre @ universal_newlines x"
proof (induction pre rule: universal_newlines.induct)
  case 1
  then show ?case by simp
next
  case (2 c)
  then show ?case by (cases x) auto
next
  case (3 c d cs)
  then show ?case by auto
qed

lemma universal_newlines_keep:
  "13 \<notin> set m \<Longrightarrow> universal_newlines (m @ post) = m @ universal_newlines post"
proof (induction m)
  case Nil
  then show ?case by simp
next
  case (Cons c m)
  then show ?case by (cases "m @ post") auto
qed

lemma universal_newlines_around:
  assumes "m \<noteq> []" "hd m \<noteq> 10" "13 \<notin> set m"
  shows "universal_newlines (pre @ m @ post)
           = universal_newlines pre @ m @ universal_newlines post"
proof -
  from assms have "m @ post \<noteq> []" "hd (m @ post) \<noteq> 10" by auto
  then have "universal_newlines (pre @ m @ post)
               = universal_newlines pre @ universal_newlines (m @ post)"
    by (rule universal_newlines_append)
  with assms(3) show ?thesis by (simp add: universal_newlines_keep)
qed

lemma marker_shape: "marker \<noteq> []" "hd marker \<noteq> 10" "13 \<notin> set marker" "10 \<notin> set marker"
  by (simp_all add: marker_def)

lemma py_in_marker_read: "py_in marker s \<Longrightarrow> py_in marker (universal_newlines s)"
proof -
  assume "py_in marker s"
  then obtain pre post where "s = pre @ marker @ post" unfolding py_in_iff by blast
  then have "universal_newlines s = universal_newlines pre @ marker @ universal_newlines post"
    by (simp add: universal_newlines_around[OF marker_shape(1,2,3)])
  then show ?thesis unfolding py_in_iff by blast
qed

section \<open>Properties of \<^verbatim>\<open>add_knowledge_section\<close>\<close>

lemmas doc_defs = unlines_def crlf_lines_def ascii_def doc_section_def doc_section_crlf_def
  doc_blank_after_heading_def doc_level3_first_def doc_level3_only_def doc_midline_def
  doc_title_only_def doc_one_char_title_def

text \<open>
  The rendered section: the four literal pieces with the agent name in each of the three
  fields. The pieces have the lengths of the source's literal text, and the marker is the
  second line of the first piece.
\<close>

lemma knowledge_section_parts:
  "knowledge_section agent_name
     = section_part1 @ agent_name @ section_part2 @ agent_name @ section_part3 @ agent_name
         @ section_part4"
  by (simp add: knowledge_section_def knowledge_section_template_def)

lemma section_part_lengths:
  "length section_part1 = 658" "length section_part2 = 30"
  "length section_part3 = 208" "length section_part4 = 42"
  by (simp_all add: section_part1_def section_part2_def section_part3_def section_part4_def)

lemma section_part1_marker: "prefix (10 # marker @ [10]) section_part1"
  by (simp add: section_part1_def marker_def)

lemma py_in_append: "py_in sub b \<Longrightarrow> py_in sub (a @ b @ c)"
  unfolding py_in_iff by (metis append.assoc)

lemma py_in_self: "py_in s s"
  unfolding py_in_iff by (metis append_Nil append_Nil2)

lemma py_in_knowledge_section: "py_in marker (knowledge_section agent_name)"
proof -
  from section_part1_marker obtain r where "section_part1 = (10 # marker @ [10]) @ r"
    by (auto simp: prefix_def)
  then have "knowledge_section agent_name
      = [10] @ marker @ (10 # r @ agent_name @ section_part2 @ agent_name @ section_part3
          @ agent_name @ section_part4)"
    by (simp add: knowledge_section_parts)
  then show ?thesis unfolding py_in_iff by blast
qed

text \<open>Reading the one file of \<open>one_file\<close>.\<close>

lemma read_one_file:
  "read_text (one_file file_path content) file_path = Inr (universal_newlines content)"
  by (simp add: read_text_def one_file_def)

lemma doc_read:
  "universal_newlines doc_section = doc_section"
  "universal_newlines doc_section_crlf = doc_section"
  "universal_newlines doc_blank_after_heading = doc_blank_after_heading"
  "universal_newlines doc_level3_first = doc_level3_first"
  "universal_newlines doc_level3_only = doc_level3_only"
  "universal_newlines doc_midline = doc_midline"
  "universal_newlines doc_title_only = doc_title_only"
  "universal_newlines doc_one_char_title = doc_one_char_title"
  "universal_newlines marker = marker"
  by (simp_all add: doc_defs marker_def)

text \<open>What the function does in each of its branches, on a file that can be read.\<close>

lemma add_section_marker:
  "read_text w file_path = Inr content \<Longrightarrow> py_in marker content \<Longrightarrow>
   add_knowledge_section w file_path agent_name
     = Inr (False, w\<lparr>stdout := stdout w @ [msg_exists file_path]\<rparr>)"
  by (simp add: add_knowledge_section_def print_def)

lemma add_section_no_match:
  "read_text w file_path = Inr content \<Longrightarrow> \<not> py_in marker content \<Longrightarrow>
   re_search pattern content = None \<Longrightarrow>
   add_knowledge_section w file_path agent_name
     = Inr (False, w\<lparr>stdout := stdout w @ [msg_no_place file_path]\<rparr>)"
  by (simp add: add_knowledge_section_def print_def)

lemma add_section_match:
  "names w file_path = Some i \<Longrightarrow> nodes w i = Some (TextFile raw) \<Longrightarrow>
   \<not> py_in marker (universal_newlines raw) \<Longrightarrow>
   re_search pattern (universal_newlines raw) = Some (a, e) \<Longrightarrow>
   add_knowledge_section w file_path agent_name
     = Inr (True, w\<lparr>nodes := (nodes w)(i \<mapsto> TextFile
                        (take e (universal_newlines raw) @ knowledge_section agent_name
                           @ drop e (universal_newlines raw))),
                    stdout := stdout w @ [msg_added file_path]\<rparr>)"
  by (simp add: add_knowledge_section_def read_text_def write_text_def print_def)

lemma add_section_True_iff:
  "add_knowledge_section w file_path agent_name = Inr (True, w') \<longleftrightarrow>
   (\<exists>i raw a e. names w file_path = Some i \<and> nodes w i = Some (TextFile raw)
      \<and> \<not> py_in marker (universal_newlines raw)
      \<and> re_search pattern (universal_newlines raw) = Some (a, e)
      \<and> w' = w\<lparr>nodes := (nodes w)(i \<mapsto> TextFile
                   (take e (universal_newlines raw) @ knowledge_section agent_name
                      @ drop e (universal_newlines raw))),
                 stdout := stdout w @ [msg_added file_path]\<rparr>)"
  by (auto simp: add_knowledge_section_def read_text_def write_text_def print_def
           split: option.splits node.splits)

text \<open>The call on a one-file world, when the text as read has no marker and a match.\<close>

lemma add_section_one_file:
  assumes "\<not> py_in marker (universal_newlines content)"
    and "re_search pattern (universal_newlines content) = Some (a, e)"
  shows "add_knowledge_section (one_file file_path content) file_path agent_name
     = Inr (True, \<lparr>names = [file_path \<mapsto> 0],
                    nodes = [0 \<mapsto> TextFile
                        (take e (universal_newlines content) @ knowledge_section agent_name
                           @ drop e (universal_newlines content))],
                    stdout = [msg_added file_path]\<rparr>)"
proof -
  have "names (one_file file_path content) file_path = Some 0"
    and "nodes (one_file file_path content) 0 = Some (TextFile content)"
    by (simp_all add: one_file_def)
  from add_section_match[OF this assms, of agent_name] show ?thesis
    by (simp add: one_file_def)
qed

subsection \<open>The marker check\<close>

text \<open>
  Claim C1. Whenever the marker occurs in the text of the file as a literal substring, the
  function returns \<^verbatim>\<open>False\<close> and leaves every file as it was; it only prints the
  "already exists" message. The check comes first, so this holds whether or not the text
  has a heading that the pattern would match.
\<close>

theorem marker_present_returns_unchanged:
  assumes "read_text w file_path = Inr (pre @ marker @ post)"
  shows "add_knowledge_section w file_path agent_name
           = Inr (False, w\<lparr>stdout := stdout w @ [msg_exists file_path]\<rparr>)"
proof -
  have "py_in marker (pre @ marker @ post)" unfolding py_in_iff by blast
  with assms show ?thesis by (rule add_section_marker)
qed

text \<open>A file that holds only the marker line: the pattern matches nowhere in it.\<close>

theorem marker_present_returns_unchanged_witness:
  "re_search pattern marker = None \<and>
   add_knowledge_section (one_file (ascii ''a.md'') marker) (ascii ''a.md'') (ascii ''a'')
     = Inr (False, \<lparr>names = [ascii ''a.md'' \<mapsto> 0], nodes = [0 \<mapsto> TextFile marker],
                     stdout = [msg_exists (ascii ''a.md'')]\<rparr>)"
proof -
  have h: "read_text (one_file (ascii ''a.md'') marker) (ascii ''a.md'') = Inr ([] @ marker @ [])"
    by (simp add: read_one_file doc_read)
  have n: "re_search pattern marker = None" by (simp add: pattern_def marker_def)
  from marker_present_returns_unchanged[OF h, of "ascii ''a''"] n show ?thesis
    by (simp add: one_file_def)
qed

text \<open>
  The same for the stored characters: a carriage return or line feed next to the marker
  does not hide it from the check, since the marker has neither.
\<close>

lemma stored_marker_is_read:
  assumes "names w file_path = Some i"
    and "nodes w i = Some (TextFile (pre @ marker @ post))
         \<or> nodes w i = Some (ReadOnlyFile (pre @ marker @ post))"
  shows "read_text w file_path
           = Inr (universal_newlines pre @ marker @ universal_newlines post)"
  using assms by (auto simp: read_text_def universal_newlines_around[OF marker_shape(1,2,3)])

text \<open>
  Claim C2. After a call that inserted the section, a second call on the same file returns
  \<^verbatim>\<open>False\<close> and changes no file (whatever agent name it is given): the rendered section
  contains the marker.
\<close>

theorem second_injection_is_noop:
  assumes "add_knowledge_section w file_path agent_name = Inr (True, w1)"
  shows "add_knowledge_section w1 file_path agent_name2
           = Inr (False, w1\<lparr>stdout := stdout w1 @ [msg_exists file_path]\<rparr>)"
proof -
  from assms obtain i raw a e where
    i: "names w file_path = Some i" and
    w1: "w1 = w\<lparr>nodes := (nodes w)(i \<mapsto> TextFile
                  (take e (universal_newlines raw) @ knowledge_section agent_name
                     @ drop e (universal_newlines raw))),
                stdout := stdout w @ [msg_added file_path]\<rparr>"
    unfolding add_section_True_iff by blast
  let ?new = "take e (universal_newlines raw) @ knowledge_section agent_name
                @ drop e (universal_newlines raw)"
  have "py_in marker ?new" by (rule py_in_append[OF py_in_knowledge_section])
  then have "py_in marker (universal_newlines ?new)" by (rule py_in_marker_read)
  moreover have "read_text w1 file_path = Inr (universal_newlines ?new)"
    using i w1 by (simp add: read_text_def)
  ultimately show ?thesis by (rule add_section_marker[rotated])
qed

lemma doc_no_marker:
  "\<not> py_in marker doc_section" "\<not> py_in marker doc_blank_after_heading"
  "\<not> py_in marker doc_level3_first" "\<not> py_in marker doc_midline"
  "\<not> py_in marker doc_title_only" "\<not> py_in marker doc_one_char_title"
  "\<not> py_in marker doc_level3_only"
  by (simp_all add: doc_defs marker_def)

lemma doc_search:
  "re_search pattern doc_section = Some (8, 19)"
  "re_search pattern doc_blank_after_heading = Some (8, 20)"
  "re_search pattern doc_level3_first = Some (9, 20)"
  "re_search pattern doc_midline = Some (12, 20)"
  "re_search pattern doc_title_only = None"
  "re_search pattern doc_one_char_title = None"
  "re_search pattern doc_level3_only = Some (9, 20)"
  by (simp_all add: doc_defs pattern_def)

lemma doc_cut:
  "take 19 doc_section = unlines [''# Title'', ''## Section'']"
  "drop 19 doc_section = unlines [''Body text'']"
  "take 20 doc_blank_after_heading = unlines [''# Title'', ''## Section'', []]"
  "drop 20 doc_blank_after_heading = unlines [''Body text'']"
  "take 20 doc_level3_first = unlines [''# Title'', ''### Details'']"
  "drop 20 doc_level3_first = unlines [''text'', ''## Section'', ''Body text'']"
  "take 20 doc_midline = unlines [''# Title'', ''see ## here'']"
  "drop 20 doc_midline = unlines [''## Section'', ''Body text'']"
  "take 20 doc_level3_only = unlines [''# Title'', ''### Details'']"
  "drop 20 doc_level3_only = unlines [''text'']"
  by (simp_all add: doc_defs)

lemma add_section_doc_section:
  "add_knowledge_section (one_file (ascii ''a.md'') doc_section) (ascii ''a.md'') (ascii ''a'')
     = Inr (True, \<lparr>names = [ascii ''a.md'' \<mapsto> 0],
                    nodes = [0 \<mapsto> TextFile (unlines [''# Title'', ''## Section'']
                      @ knowledge_section (ascii ''a'') @ unlines [''Body text''])],
                    stdout = [msg_added (ascii ''a.md'')]\<rparr>)"
  using add_section_one_file[of doc_section 8 19 "ascii ''a.md''" "ascii ''a''"]
  by (simp add: doc_read doc_no_marker doc_search doc_cut)

text \<open>The end-to-end scenario of the specification, run twice.\<close>

theorem second_injection_is_noop_witness:
  "add_knowledge_section (one_file (ascii ''a.md'') doc_section) (ascii ''a.md'') (ascii ''a'')
     = Inr (True, \<lparr>names = [ascii ''a.md'' \<mapsto> 0],
                    nodes = [0 \<mapsto> TextFile (unlines [''# Title'', ''## Section'']
                      @ knowledge_section (ascii ''a'') @ unlines [''Body text''])],
                    stdout = [msg_added (ascii ''a.md'')]\<rparr>)
   \<and> add_knowledge_section
        \<lparr>names = [ascii ''a.md'' \<mapsto> 0],
         nodes = [0 \<mapsto> TextFile (unlines [''# Title'', ''## Section'']
                      @ knowledge_section (ascii ''a'') @ unlines [''Body text''])],
         stdout = [msg_added (ascii ''a.md'')]\<rparr> (ascii ''a.md'') (ascii ''a'')
     = Inr (False,
        \<lparr>names = [ascii ''a.md'' \<mapsto> 0],
         nodes = [0 \<mapsto> TextFile (unlines [''# Title'', ''## Section'']
                      @ knowledge_section (ascii ''a'') @ unlines [''Body text''])],
         stdout = [msg_added (ascii ''a.md''), msg_exists (ascii ''a.md'')]\<rparr>)"
  using second_injection_is_noop[OF add_section_doc_section, of "ascii ''a''"]
        add_section_doc_section
  by simp

subsection \<open>The anchor and the insertion point\<close>

text \<open>
  Claim C3, at a document whose first heading below the title has level 3, and at a
  document with \<^verbatim>\<open>## \<close> in the middle of a line: the section is inserted after the
  level-3 heading \<^verbatim>\<open>### Details\<close>, and after the line \<^verbatim>\<open>see ## here\<close>, although
  both documents have the level-2 heading \<^verbatim>\<open>## Section\<close> further down.
\<close>

theorem anchor_is_not_first_level2_heading:
  "add_knowledge_section (one_file (ascii ''a.md'') doc_level3_first) (ascii ''a.md'') (ascii ''a'')
     = Inr (True, \<lparr>names = [ascii ''a.md'' \<mapsto> 0],
                    nodes = [0 \<mapsto> TextFile (unlines [''# Title'', ''### Details'']
                      @ knowledge_section (ascii ''a'')
                      @ unlines [''text'', ''## Section'', ''Body text''])],
                    stdout = [msg_added (ascii ''a.md'')]\<rparr>)
   \<and> add_knowledge_section (one_file (ascii ''a.md'') doc_midline) (ascii ''a.md'') (ascii ''a'')
     = Inr (True, \<lparr>names = [ascii ''a.md'' \<mapsto> 0],
                    nodes = [0 \<mapsto> TextFile (unlines [''# Title'', ''see ## here'']
                      @ knowledge_section (ascii ''a'')
                      @ unlines [''## Section'', ''Body text''])],
                    stdout = [msg_added (ascii ''a.md'')]\<rparr>)"
  using add_section_one_file[of doc_level3_first 9 20 "ascii ''a.md''" "ascii ''a''"]
        add_section_one_file[of doc_midline 12 20 "ascii ''a.md''" "ascii ''a''"]
  by (simp add: doc_read doc_no_marker doc_search doc_cut)

text \<open>
  Claim C4, at a document whose level-2 heading is followed by a blank line: the section
  is inserted after the blank line, not between the heading's newline and the blank line.
\<close>

theorem insertion_after_blank_line:
  "add_knowledge_section (one_file (ascii ''a.md'') doc_blank_after_heading)
       (ascii ''a.md'') (ascii ''a'')
     = Inr (True, \<lparr>names = [ascii ''a.md'' \<mapsto> 0],
                    nodes = [0 \<mapsto> TextFile (unlines [''# Title'', ''## Section'', '''']
                      @ knowledge_section (ascii ''a'') @ unlines [''Body text''])],
                    stdout = [msg_added (ascii ''a.md'')]\<rparr>)"
  using add_section_one_file[of doc_blank_after_heading 8 20 "ascii ''a.md''" "ascii ''a''"]
  by (simp add: doc_read doc_no_marker doc_search doc_cut)

text \<open>
  Claim C5, at a document without marker and without any level-2 heading, whose only
  headings are a level-1 title and the level-3 heading \<^verbatim>\<open>### Details\<close>: the function does
  not report that there is no insertion point. The pattern matches inside the level-3
  heading, and the function rewrites the file with the section after that heading and
  returns \<^verbatim>\<open>True\<close>.
\<close>

theorem no_level2_heading_is_rewritten:
  "\<not> py_in marker doc_level3_only
   \<and> add_knowledge_section (one_file (ascii ''a.md'') doc_level3_only) (ascii ''a.md'') (ascii ''a'')
     = Inr (True, \<lparr>names = [ascii ''a.md'' \<mapsto> 0],
                    nodes = [0 \<mapsto> TextFile (unlines [''# Title'', ''### Details'']
                      @ knowledge_section (ascii ''a'') @ unlines [''text''])],
                    stdout = [msg_added (ascii ''a.md'')]\<rparr>)"
  using add_section_one_file[of doc_level3_only 9 20 "ascii ''a.md''" "ascii ''a''"]
  by (simp add: doc_read doc_no_marker doc_search doc_cut)

text \<open>
  When the pattern occurs nowhere in the text as read and the marker is absent, the call
  returns \<^verbatim>\<open>False\<close> and writes nothing. The pattern occurs nowhere exactly when the
  text cannot be cut into a prefix, \<^verbatim>\<open>## \<close>, a non-empty title free of \<^verbatim>\<open>#\<close> and line
  feed, one more character other than \<^verbatim>\<open>#\<close>, a line feed and a rest.
\<close>

lemma re_search_None_iff:
  "re_search pattern content = None \<longleftrightarrow>
   (\<forall>pre title c post. content = pre @ [35, 35, 32] @ title @ c # 10 # post \<longrightarrow>
      title = [] \<or> 35 \<in> set title \<or> 10 \<in> set title \<or> c = 35)"
proof
  assume n: "re_search pattern content = None"
  show "\<forall>pre title c post. content = pre @ [35, 35, 32] @ title @ c # 10 # post \<longrightarrow>
          title = [] \<or> 35 \<in> set title \<or> 10 \<in> set title \<or> c = 35"
  proof (intro allI impI)
    fix pre title c post
    assume eq: "content = pre @ [35, 35, 32] @ title @ c # 10 # post"
    show "title = [] \<or> 35 \<in> set title \<or> 10 \<in> set title \<or> c = 35"
    proof (rule ccontr)
      assume "\<not> ?thesis"
      then have "re_search pattern (pre @ [35, 35, 32] @ title @ c # 10 # post) \<noteq> None"
        by (intro re_search_complete) auto
      with eq n show False by simp
    qed
  qed
next
  assume a: "\<forall>pre title c post. content = pre @ [35, 35, 32] @ title @ c # 10 # post \<longrightarrow>
          title = [] \<or> 35 \<in> set title \<or> 10 \<in> set title \<or> c = 35"
  show "re_search pattern content = None"
  proof (cases "re_search pattern content")
    case None
    then show ?thesis .
  next
    case (Some ae)
    obtain s e where "ae = (s, e)" by (cases ae)
    with Some have "re_search pattern content = Some (s, e)" by simp
    from re_search_sound[OF this] a show ?thesis by blast
  qed
qed

subsection \<open>What is written\<close>

text \<open>
  Claim C6, at a document with the line ends carriage return, line feed: the file is
  rewritten with line feeds only. The three carriage returns of the document are gone,
  so what is written is three characters shorter than the document and the section
  together, and is not the document with the section spliced in.
\<close>

theorem crlf_document_loses_carriage_returns:
  "add_knowledge_section (one_file (ascii ''a.md'') doc_section_crlf) (ascii ''a.md'') (ascii ''a'')
     = Inr (True, \<lparr>names = [ascii ''a.md'' \<mapsto> 0],
                    nodes = [0 \<mapsto> TextFile (unlines [''# Title'', ''## Section'']
                      @ knowledge_section (ascii ''a'') @ unlines [''Body text''])],
                    stdout = [msg_added (ascii ''a.md'')]\<rparr>)
   \<and> length (unlines [''# Title'', ''## Section''] @ knowledge_section (ascii ''a'')
               @ unlines [''Body text'']) + 3
       = length doc_section_crlf + length (knowledge_section (ascii ''a''))
   \<and> filter (\<lambda>c. c = 13) doc_section_crlf = [13, 13, 13]"
proof -
  have l: "length (unlines [''# Title'', ''## Section'']) + length (unlines [''Body text'']) + 3
             = length doc_section_crlf"
    and f: "filter (\<lambda>c. c = 13) doc_section_crlf = [13, 13, 13]"
    by (simp_all add: doc_defs)
  show ?thesis
    using add_section_one_file[of doc_section_crlf 8 19 "ascii ''a.md''" "ascii ''a''"] l f
    by (simp add: doc_read doc_no_marker doc_search doc_cut)
qed

text \<open>
  Claim C6 as amended. When the call on a text file inserts, the pattern matched from some
  offset \<open>a\<close> to some offset \<open>e\<close> within the text as read (the stored characters with
  carriage return, line feed and lone carriage return read as line feed), and the file now
  holds the text as read up to \<open>e\<close>, the rendered section, and the text as read from \<open>e\<close>
  on. The rendered section is the four literal pieces of the template with the agent name
  in each of the three fields. The two outer parts together are the text as read, which is
  the stored text when that has no carriage return. No path changes what it names and no
  other file changes.
\<close>

theorem injection_splices_section:
  assumes "names w file_path = Some i" and "nodes w i = Some (TextFile raw)"
    and "add_knowledge_section w file_path agent_name = Inr (True, w')"
  shows "\<exists>a e. re_search pattern (universal_newlines raw) = Some (a, e)
           \<and> e \<le> length (universal_newlines raw)
           \<and> nodes w' i = Some (TextFile
               (take e (universal_newlines raw)
                  @ section_part1 @ agent_name @ section_part2 @ agent_name @ section_part3
                  @ agent_name @ section_part4
                  @ drop e (universal_newlines raw)))
           \<and> take e (universal_newlines raw) @ drop e (universal_newlines raw)
               = universal_newlines raw
           \<and> (13 \<notin> set raw \<longrightarrow> universal_newlines raw = raw)
           \<and> names w' = names w
           \<and> (\<forall>j. j \<noteq> i \<longrightarrow> nodes w' j = nodes w j)"
proof -
  from assms(3) obtain i' raw' a e where
    c: "names w file_path = Some i'" "nodes w i' = Some (TextFile raw')"
       "re_search pattern (universal_newlines raw') = Some (a, e)"
    and w': "w' = w\<lparr>nodes := (nodes w)(i' \<mapsto> TextFile
                   (take e (universal_newlines raw') @ knowledge_section agent_name
                      @ drop e (universal_newlines raw'))),
                  stdout := stdout w @ [msg_added file_path]\<rparr>"
    unfolding add_section_True_iff by blast
  from c(1,2) assms(1,2) have eq: "i' = i" "raw' = raw" by simp_all
  from c(3) eq have "e \<le> length (universal_newlines raw)" by (auto dest: re_search_le)
  with c(3) w' eq show ?thesis
    by (simp add: knowledge_section_parts universal_newlines_id)
qed

text \<open>
  The document with carriage returns again: the call returns \<^verbatim>\<open>True\<close>, and the text
  that is spliced is the document as read.
\<close>

theorem injection_splices_section_witness:
  "add_knowledge_section (one_file (ascii ''a.md'') doc_section_crlf) (ascii ''a.md'') (ascii ''a'')
     = Inr (True, \<lparr>names = [ascii ''a.md'' \<mapsto> 0],
                    nodes = [0 \<mapsto> TextFile (unlines [''# Title'', ''## Section'']
                      @ knowledge_section (ascii ''a'') @ unlines [''Body text''])],
                    stdout = [msg_added (ascii ''a.md'')]\<rparr>)
   \<and> (\<exists>a e. re_search pattern doc_section = Some (a, e) \<and> e \<le> length doc_section
         \<and> unlines [''# Title'', ''## Section''] @ knowledge_section (ascii ''a'')
               @ unlines [''Body text'']
             = take e doc_section
                 @ section_part1 @ ascii ''a'' @ section_part2 @ ascii ''a'' @ section_part3
                 @ ascii ''a'' @ section_part4
                 @ drop e doc_section
         \<and> take e doc_section @ drop e doc_section = doc_section)"
proof -
  have r: "add_knowledge_section (one_file (ascii ''a.md'') doc_section_crlf)
             (ascii ''a.md'') (ascii ''a'')
     = Inr (True, \<lparr>names = [ascii ''a.md'' \<mapsto> 0],
                    nodes = [0 \<mapsto> TextFile (unlines [''# Title'', ''## Section'']
                      @ knowledge_section (ascii ''a'') @ unlines [''Body text''])],
                    stdout = [msg_added (ascii ''a.md'')]\<rparr>)"
    using add_section_one_file[of doc_section_crlf 8 19 "ascii ''a.md''" "ascii ''a''"]
    by (simp add: doc_read doc_no_marker doc_search doc_cut)
  have n: "names (one_file (ascii ''a.md'') doc_section_crlf) (ascii ''a.md'') = Some 0"
    and t: "nodes (one_file (ascii ''a.md'') doc_section_crlf) 0
              = Some (TextFile doc_section_crlf)"
    by (simp_all add: one_file_def)
  from injection_splices_section[OF n t r] obtain a e where
    "re_search pattern (universal_newlines doc_section_crlf) = Some (a, e)"
    "e \<le> length (universal_newlines doc_section_crlf)"
    "nodes \<lparr>names = [ascii ''a.md'' \<mapsto> 0],
            nodes = [0 \<mapsto> TextFile (unlines [''# Title'', ''## Section'']
                      @ knowledge_section (ascii ''a'') @ unlines [''Body text''])],
            stdout = [msg_added (ascii ''a.md'')]\<rparr> 0
       = Some (TextFile
               (take e (universal_newlines doc_section_crlf)
                  @ section_part1 @ ascii ''a'' @ section_part2 @ ascii ''a'' @ section_part3
                  @ ascii ''a'' @ section_part4
                  @ drop e (universal_newlines doc_section_crlf)))"
    by blast
  then have "re_search pattern doc_section = Some (a, e) \<and> e \<le> length doc_section
         \<and> unlines [''# Title'', ''## Section''] @ knowledge_section (ascii ''a'')
               @ unlines [''Body text'']
             = take e doc_section
                 @ section_part1 @ ascii ''a'' @ section_part2 @ ascii ''a'' @ section_part3
                 @ ascii ''a'' @ section_part4
                 @ drop e doc_section
         \<and> take e doc_section @ drop e doc_section = doc_section"
    by (simp add: doc_read)
  with r show ?thesis by blast
qed

subsection \<open>The two ways of not inserting\<close>

text \<open>
  Claim C7, at a document that already holds the marker and at a document with only a
  level-1 title: the function returns \<^verbatim>\<open>False\<close> for both and writes to neither, so the
  value the caller receives is the same; only the printed message differs.
\<close>

theorem outcomes_share_return_value:
  "add_knowledge_section (one_file (ascii ''a.md'') marker) (ascii ''a.md'') (ascii ''a'')
     = Inr (False, \<lparr>names = [ascii ''a.md'' \<mapsto> 0], nodes = [0 \<mapsto> TextFile marker],
                     stdout = [msg_exists (ascii ''a.md'')]\<rparr>)
   \<and> add_knowledge_section (one_file (ascii ''a.md'') doc_title_only) (ascii ''a.md'') (ascii ''a'')
     = Inr (False, \<lparr>names = [ascii ''a.md'' \<mapsto> 0], nodes = [0 \<mapsto> TextFile doc_title_only],
                     stdout = [msg_no_place (ascii ''a.md'')]\<rparr>)"
proof -
  have f1: "read_text (one_file (ascii ''a.md'') marker) (ascii ''a.md'') = Inr marker"
    and f2: "read_text (one_file (ascii ''a.md'') doc_title_only) (ascii ''a.md'')
               = Inr doc_title_only"
    by (simp_all add: read_one_file doc_read)
  show ?thesis
    using add_section_marker[OF f1 py_in_self, of "ascii ''a''"]
          add_section_no_match[OF f2 doc_no_marker(5) doc_search(5), of "ascii ''a''"]
    by (simp add: one_file_def)
qed

text \<open>
  Claim C7 as amended. For a file whose text holds the marker and a file whose text has no
  marker and no match of the pattern, the function returns \<^verbatim>\<open>False\<close> both times and
  leaves the files as they were. The two outcomes differ in the line printed to standard
  output and in nothing the caller receives.
\<close>

theorem outcomes_differ_only_in_message:
  assumes "read_text w p = Inr c1" "py_in marker c1"
    and "read_text v q = Inr c2" "\<not> py_in marker c2" "re_search pattern c2 = None"
  shows "add_knowledge_section w p n = Inr (False, w\<lparr>stdout := stdout w @ [msg_exists p]\<rparr>)
           \<and> add_knowledge_section v q m
               = Inr (False, v\<lparr>stdout := stdout v @ [msg_no_place q]\<rparr>)
           \<and> msg_exists p \<noteq> msg_no_place q"
proof -
  have "msg_exists p \<noteq> msg_no_place q" by (simp add: msg_exists_def msg_no_place_def)
  with add_section_marker[OF assms(1,2), of n] add_section_no_match[OF assms(3,4,5), of m]
  show ?thesis by simp
qed

theorem outcomes_differ_only_in_message_witness:
  "add_knowledge_section (one_file (ascii ''a.md'') marker) (ascii ''a.md'') (ascii ''a'')
     = Inr (False, \<lparr>names = [ascii ''a.md'' \<mapsto> 0], nodes = [0 \<mapsto> TextFile marker],
                     stdout = [msg_exists (ascii ''a.md'')]\<rparr>)
   \<and> add_knowledge_section (one_file (ascii ''b.md'') doc_title_only) (ascii ''b.md'') (ascii ''b'')
     = Inr (False, \<lparr>names = [ascii ''b.md'' \<mapsto> 0], nodes = [0 \<mapsto> TextFile doc_title_only],
                     stdout = [msg_no_place (ascii ''b.md'')]\<rparr>)
   \<and> msg_exists (ascii ''a.md'') \<noteq> msg_no_place (ascii ''b.md'')"
proof -
  have f1: "read_text (one_file (ascii ''a.md'') marker) (ascii ''a.md'') = Inr marker"
    and f2: "read_text (one_file (ascii ''b.md'') doc_title_only) (ascii ''b.md'')
               = Inr doc_title_only"
    by (simp_all add: read_one_file doc_read)
  from outcomes_differ_only_in_message[OF f1 py_in_self f2 doc_no_marker(5) doc_search(5),
        of "ascii ''a''" "ascii ''b''"]
  show ?thesis by (simp add: one_file_def)
qed

text \<open>
  Claim C10. The document \<^verbatim>\<open># Title\<close>, \<^verbatim>\<open>## A\<close>, \<^verbatim>\<open>Body text\<close> has no marker, its
  only level-2 heading has a title of one character, and a non-blank line follows the
  heading. The pattern matches nowhere in it: the function returns \<^verbatim>\<open>False\<close>, prints the
  "no place found" message and leaves the file as it was.
\<close>

theorem one_char_title_finds_no_anchor:
  "doc_one_char_title = unlines [''# Title''] @ ascii ''## '' @ [65, 10] @ unlines [''Body text'']
   \<and> \<not> py_in marker doc_one_char_title
   \<and> re_search pattern doc_one_char_title = None
   \<and> add_knowledge_section (one_file (ascii ''a.md'') doc_one_char_title)
         (ascii ''a.md'') (ascii ''a'')
       = Inr (False, \<lparr>names = [ascii ''a.md'' \<mapsto> 0],
                       nodes = [0 \<mapsto> TextFile doc_one_char_title],
                       stdout = [msg_no_place (ascii ''a.md'')]\<rparr>)"
proof -
  have f: "read_text (one_file (ascii ''a.md'') doc_one_char_title) (ascii ''a.md'')
             = Inr doc_one_char_title"
    by (simp add: read_one_file doc_read)
  have s: "doc_one_char_title
             = unlines [''# Title''] @ ascii ''## '' @ [65, 10] @ unlines [''Body text'']"
    by (simp add: doc_defs)
  show ?thesis
    using add_section_no_match[OF f doc_no_marker(6) doc_search(6), of "ascii ''a''"]
          doc_no_marker(6) doc_search(6) s
    by (simp add: one_file_def)
qed

section \<open>Properties of \<^verbatim>\<open>main\<close>\<close>


lemma py_str_nonempty: "py_str n \<noteq> []"
  by (subst py_str.simps) simp

lemma py_str_last: "last (py_str n) = 48 + n mod 10"
  by (subst py_str.simps) simp

lemma py_str_butlast: "10 \<le> n \<Longrightarrow> butlast (py_str n) = py_str (n div 10)"
  by (subst py_str.simps) simp

lemma py_str_inj: "py_str m = py_str n \<Longrightarrow> m = n"
proof (induction m arbitrary: n rule: py_str.induct)
  case (1 m)
  have l: "m mod 10 = n mod 10" using "1.prems" py_str_last[of m] py_str_last[of n] by simp
  show ?case
  proof (cases "m < 10")
    case True
    with "1.prems" have "py_str n = [48 + m]" by (simp add: py_str.simps[of m])
    then have "length (py_str n) = 1" by simp
    then have "n < 10"
      using py_str_nonempty[of "n div 10"] by (auto simp: py_str.simps[of n] split: if_splits)
    with True l show ?thesis by simp
  next
    case False
    then have "py_str n = py_str (m div 10) @ [48 + m mod 10]"
      using "1.prems" by (simp add: py_str.simps[of m])
    then have "length (py_str n) \<noteq> 1"
      using py_str_nonempty[of "m div 10"] by simp
    then have n: "\<not> n < 10" by (auto simp: py_str.simps[of n])
    have "py_str (m div 10) = py_str (n div 10)"
      using "1.prems" False n py_str_butlast[of m] py_str_butlast[of n] by simp
    with "1.IH" False have "m div 10 = n div 10" by simp
    with l show ?thesis by (metis div_mult_mod_eq)
  qed
qed










text \<open>\<open>would_insert\<close> says that the call on a path that names the file returns \<^verbatim>\<open>True\<close>.\<close>

lemma would_insert_iff:
  "names w file_path = Some i \<Longrightarrow>
   would_insert w i \<longleftrightarrow> (\<exists>w'. add_knowledge_section w file_path agent_name = Inr (True, w'))"
  unfolding add_section_True_iff
  by (auto simp: would_insert_def split: option.splits node.splits)

















section \<open>Properties of the line formatter\<close>

lemma is_space_32: "is_space 32" by (simp add: is_space_def)
lemma not_space_hash: "\<not> is_space 35" by (simp add: is_space_def)

subsection \<open>Splitting and joining\<close>

lemma split_lines_nonempty: "split_lines t \<noteq> []"
  by (induction t) (auto split: list.splits)

lemma split_lines_no_newline: "l \<in> set (split_lines t) \<Longrightarrow> 10 \<notin> set l"
  by (induction t arbitrary: l) (auto split: if_splits list.splits)

lemma split_lines_line: "10 \<notin> set l \<Longrightarrow> split_lines l = [l]"
  by (induction l) auto

lemma split_lines_append: "10 \<notin> set l \<Longrightarrow> split_lines (l @ 10 # r) = l # split_lines r"
  by (induction l) auto

lemma split_join:
  "ls \<noteq> [] \<Longrightarrow> \<forall>l\<in>set ls. 10 \<notin> set l \<Longrightarrow> split_lines (join_lines ls) = ls"
proof (induction ls rule: join_lines.induct)
  case 1
  then show ?case by simp
next
  case (2 l)
  then show ?case by (simp add: split_lines_line)
next
  case (3 l m ls)
  then have "split_lines (join_lines (m # ls)) = m # ls" by simp
  with 3 show ?case by (simp add: split_lines_append)
qed

subsection \<open>Whitespace inside a line\<close>

lemma spaced_collapse_all: "spaced p (collapse_all p l)"
  by (induction l arbitrary: p) (auto simp: is_space_32)

lemma collapse_all_id: "spaced p l \<Longrightarrow> collapse_all p l = l"
  by (induction l arbitrary: p) (auto split: if_splits)

lemma spaced_True_False: "spaced True l \<Longrightarrow> spaced False l"
  by (cases l) (auto split: if_splits)

lemma spaced_True_hd: "spaced True l \<Longrightarrow> dropWhile is_space l = l"
  by (cases l) (auto split: if_splits)

lemma spaced_dropWhile: "spaced p l \<Longrightarrow> spaced True (dropWhile is_space l)"
  by (cases l) (auto split: if_splits simp: spaced_True_hd)

lemma spaced_rstrip: "spaced p l \<Longrightarrow> spaced p (rstrip l)"
  by (induction l arbitrary: p) (auto split: if_splits)

lemma spaced_no_run: "spaced p l \<Longrightarrow> no_run l"
proof (induction l arbitrary: p)
  case Nil
  then show ?case by simp
next
  case (Cons c cs)
  then have tl: "no_run cs" by (auto split: if_splits)
  show ?case
  proof (cases cs)
    case Nil
    then show ?thesis by simp
  next
    case (Cons d ds)
    with Cons.prems have "\<not> (is_space c \<and> is_space d)" by (auto split: if_splits)
    with tl Cons show ?thesis by simp
  qed
qed

lemma rstrip_idem: "rstrip (rstrip l) = rstrip l"
  by (induction l) auto

lemma rstrip_keeps_hd: "\<not> is_space c \<Longrightarrow> rstrip (c # cs) = c # rstrip cs"
  by simp

lemma dropWhile_trim: "dropWhile is_space (trim l) = trim l"
proof (cases "dropWhile is_space l")
  case Nil
  show ?thesis unfolding trim_def Nil by simp
next
  case (Cons c cs)
  then have "\<not> is_space c" by (metis hd_dropWhile list.distinct(1) list.sel(1))
  then show ?thesis unfolding trim_def Cons by simp
qed

lemma trim_idem: "trim (trim l) = trim l"
proof -
  have "trim (trim l) = rstrip (trim l)" by (simp add: trim_def[of "trim l"] dropWhile_trim)
  also have "\<dots> = trim l" by (simp add: trim_def rstrip_idem)
  finally show ?thesis .
qed

lemma spaced_trim: "spaced p l \<Longrightarrow> spaced False (trim l)"
  unfolding trim_def by (intro spaced_True_False spaced_rstrip spaced_dropWhile)

lemma no_run_Cons:
  "no_run (c # l) \<longleftrightarrow> (l = [] \<or> (\<not> (is_space c \<and> is_space (hd l)) \<and> no_run l))"
  by (cases l) auto

lemma collapse_runs_id: "no_run l \<Longrightarrow> collapse_runs l = l"
  by (induction l rule: collapse_runs.induct) auto

lemma collapse_runs_nonspace: "\<not> is_space c \<Longrightarrow> collapse_runs (c # cs) = c # collapse_runs cs"
  by (cases cs) auto

lemma collapse_runs_dropWhile_hd:
  "collapse_runs (dropWhile is_space cs) = [] \<or> \<not> is_space (hd (collapse_runs (dropWhile is_space cs)))"
proof (cases "dropWhile is_space cs")
  case Nil
  show ?thesis unfolding Nil by simp
next
  case (Cons c ds)
  then have "\<not> is_space c" by (metis hd_dropWhile list.distinct(1) list.sel(1))
  then show ?thesis unfolding Cons by (simp add: collapse_runs_nonspace)
qed

lemma collapse_runs_hd:
  "collapse_runs (c # cs) \<noteq> [] \<and> is_space (hd (collapse_runs (c # cs))) = is_space c"
  by (cases cs) (auto simp: is_space_32)

lemma no_run_collapse_runs: "no_run (collapse_runs l)"
proof (induction l rule: collapse_runs.induct)
  case 1
  then show ?case by simp
next
  case (2 c)
  then show ?case by simp
next
  case (3 c d cs)
  show ?case
  proof (cases "is_space c \<and> is_space d")
    case True
    with 3 have "no_run (collapse_runs (dropWhile is_space cs))" by simp
    with True collapse_runs_dropWhile_hd[of cs] show ?thesis by (auto simp: no_run_Cons)
  next
    case False
    with 3 have "no_run (collapse_runs (d # cs))" by simp
    with False collapse_runs_hd[of d cs] show ?thesis by (auto simp: no_run_Cons)
  qed
qed

lemma collapse_runs_idem: "collapse_runs (collapse_runs l) = collapse_runs l"
  by (rule collapse_runs_id[OF no_run_collapse_runs])

subsection \<open>Headings\<close>

lemma collapse_runs_hashes:
  "collapse_runs (replicate n 35 @ r) = replicate n 35 @ collapse_runs r"
  by (induction n) (simp_all add: collapse_runs_nonspace not_space_hash)

lemma hashes_split: "\<exists>r. l = replicate (length (takeWhile (\<lambda>c. c = 35) l)) 35 @ r
    \<and> (r = [] \<or> hd r \<noteq> 35)"
proof (induction l)
  case Nil
  then show ?case by simp
next
  case (Cons c cs)
  then show ?case by (cases "c = 35") auto
qed

lemma heading_level_hashes:
  "r = [] \<or> hd r \<noteq> 35 \<Longrightarrow>
   heading_level (replicate n 35 @ r)
     = (if 1 \<le> n \<and> n \<le> 6 \<and> r \<noteq> [] \<and> is_space (hd r) then n else 0)"
proof -
  assume r: "r = [] \<or> hd r \<noteq> 35"
  have "takeWhile (\<lambda>c. c = 35) (replicate n 35 @ r) = replicate n 35"
  proof (induction n)
    case 0
    from r show ?case by (cases r) auto
  next
    case (Suc n)
    then show ?case by simp
  qed
  then have "length (takeWhile (\<lambda>c. c = 35) (replicate n 35 @ r)) = n" by simp
  then show ?thesis by (cases r) (auto simp: heading_level_def Let_def)
qed

lemma heading_level_collapse_runs: "heading_level (collapse_runs l) = heading_level l"
proof -
  obtain r where l: "l = replicate (length (takeWhile (\<lambda>c. c = 35) l)) 35 @ r"
    and r: "r = [] \<or> hd r \<noteq> 35"
    using hashes_split[of l] by blast
  let ?n = "length (takeWhile (\<lambda>c. c = 35) l)"
  have r': "collapse_runs r = [] \<or> hd (collapse_runs r) \<noteq> 35"
  proof (cases r)
    case Nil
    then show ?thesis by simp
  next
    case (Cons c cs)
    with r have c: "c \<noteq> 35" by simp
    show ?thesis
    proof (cases "is_space c")
      case True
      with collapse_runs_hd[of c cs] Cons not_space_hash show ?thesis by metis
    next
      case False
      with Cons c show ?thesis by (simp add: collapse_runs_nonspace)
    qed
  qed
  have same: "(collapse_runs r \<noteq> [] \<and> is_space (hd (collapse_runs r)))
                = (r \<noteq> [] \<and> is_space (hd r))"
  proof (cases r)
    case Nil
    then show ?thesis by simp
  next
    case (Cons c cs)
    with collapse_runs_hd[of c cs] show ?thesis by simp
  qed
  have "heading_level (collapse_runs l) = heading_level (replicate ?n 35 @ collapse_runs r)"
    using l collapse_runs_hashes[of ?n r] by simp
  also have "\<dots> = heading_level (replicate ?n 35 @ r)"
    unfolding heading_level_hashes[OF r'] heading_level_hashes[OF r] same ..
  also have "\<dots> = heading_level l" using l by simp
  finally show ?thesis .
qed

lemma heading_not_blank: "1 \<le> heading_level l \<Longrightarrow> \<not> blank l"
proof -
  assume h: "1 \<le> heading_level l"
  then have "1 \<le> length (takeWhile (\<lambda>c. c = 35) l)"
    by (auto simp: heading_level_def Let_def split: if_splits)
  then obtain cs where "l = 35 # cs"
    by (cases l) (auto split: if_splits)
  then show ?thesis by (simp add: blank_def trim_def not_space_hash)
qed

subsection \<open>One line\<close>

lemma normalize_line_idem: "normalize_line (normalize_line l) = normalize_line l"
proof (cases "1 \<le> heading_level l")
  case True
  let ?l1 = "trim (collapse_all False l)"
  have sp: "spaced False ?l1" by (rule spaced_trim[OF spaced_collapse_all])
  then have nr: "collapse_runs ?l1 = ?l1" by (intro collapse_runs_id spaced_no_run)
  with True have n: "normalize_line l = ?l1" by (simp add: normalize_line_def)
  have "trim (collapse_all False ?l1) = ?l1"
    using sp by (simp add: collapse_all_id trim_idem)
  with nr have "normalize_line ?l1 = ?l1" by (simp add: normalize_line_def)
  with n show ?thesis by simp
next
  case False
  then have n: "normalize_line l = collapse_runs l" by (simp add: normalize_line_def)
  from False have "\<not> 1 \<le> heading_level (collapse_runs l)"
    by (simp add: heading_level_collapse_runs)
  then have "normalize_line (collapse_runs l) = collapse_runs l"
    by (simp add: normalize_line_def collapse_runs_idem)
  with n show ?thesis by simp
qed

lemma set_collapse_all: "set (collapse_all p l) \<subseteq> insert 32 (set l)"
  by (induction l arbitrary: p) auto

lemma set_collapse_runs: "set (collapse_runs l) \<subseteq> insert 32 (set l)"
proof (induction l rule: collapse_runs.induct)
  case (3 c d cs)
  have "set (dropWhile is_space cs) \<subseteq> set cs" by (rule set_dropWhileD[THEN subsetI])
  with 3 show ?case by auto
qed simp_all

lemma set_rstrip: "set (rstrip l) \<subseteq> set l"
  by (induction l) auto

lemma set_trim: "set (trim l) \<subseteq> set l"
proof -
  have "set (dropWhile is_space l) \<subseteq> set l" by (rule set_dropWhileD[THEN subsetI])
  with set_rstrip[of "dropWhile is_space l"] show ?thesis by (auto simp: trim_def)
qed

lemma normalize_line_no_newline: "10 \<notin> set l \<Longrightarrow> 10 \<notin> set (normalize_line l)"
proof -
  assume l: "10 \<notin> set l"
  have "set (normalize_line l) \<subseteq> insert 32 (set l)"
    using set_collapse_runs[of l] set_collapse_runs[of "trim (collapse_all False l)"]
      set_trim[of "collapse_all False l"] set_collapse_all[of False l]
    by (auto simp: normalize_line_def)
  with l show ?thesis by auto
qed

lemma normalize_line_Nil: "normalize_line [] = []"
  by (simp add: normalize_line_def heading_level_def)

lemma blank_Nil: "blank []"
  by (simp add: blank_def trim_def)

lemma heading_level_Nil: "heading_level [] = 0"
  by (simp add: heading_level_def)

subsection \<open>The two passes\<close>

lemma settled_emit_lines: "settled p (emit_lines p ls)"
  by (induction ls arbitrary: p)
     (auto simp: Let_def normalize_line_idem normalize_line_Nil blank_Nil heading_level_Nil)

lemma emit_lines_id: "settled p ls \<Longrightarrow> emit_lines p ls = ls"
  by (induction ls arbitrary: p) (auto simp: Let_def)

lemma settled_drop_repeated_blanks:
  "settled p xs \<Longrightarrow> (q \<longrightarrow> p) \<Longrightarrow> (pb \<longrightarrow> \<not> q) \<Longrightarrow> settled q (drop_repeated_blanks pb xs)"
proof (induction xs arbitrary: p q pb)
  case Nil
  then show ?case by simp
next
  case (Cons l ls)
  from Cons.prems(1) have n: "normalize_line l = l"
    and h: "\<not> (1 \<le> heading_level l \<and> heading_level l \<le> 3 \<and> p)"
    and s: "settled (\<not> blank l) ls" by simp_all
  show ?case
  proof (cases "blank l")
    case True
    then have nh: "\<not> 1 \<le> heading_level l" using heading_not_blank by blast
    from True s have s': "settled False ls" by simp
    show ?thesis
    proof (cases pb)
      case True
      with Cons.prems(3) have "\<not> q" by simp
      with Cons.IH[OF s', of q True] \<open>blank l\<close> True show ?thesis by simp
    next
      case False
      from Cons.IH[OF s', of False True] have "settled False (drop_repeated_blanks True ls)"
        by simp
      with \<open>blank l\<close> False n nh show ?thesis by simp
    qed
  next
    case False
    with s have s': "settled True ls" by simp
    from Cons.IH[OF s', of True False] have "settled True (drop_repeated_blanks False ls)"
      by simp
    with False n h Cons.prems(2) show ?thesis by auto
  qed
qed

lemma drop_repeated_blanks_idem:
  "drop_repeated_blanks pb (drop_repeated_blanks pb xs) = drop_repeated_blanks pb xs"
  by (induction xs arbitrary: pb) auto

lemma emit_lines_nonempty: "ls \<noteq> [] \<Longrightarrow> emit_lines p ls \<noteq> []"
  by (cases ls) (auto simp: Let_def)

lemma drop_repeated_blanks_nonempty: "xs \<noteq> [] \<Longrightarrow> drop_repeated_blanks False xs \<noteq> []"
  by (cases xs) auto

lemma emit_lines_no_newline:
  "\<forall>l\<in>set ls. 10 \<notin> set l \<Longrightarrow> \<forall>l\<in>set (emit_lines p ls). 10 \<notin> set l"
  by (induction ls arbitrary: p) (auto simp: Let_def normalize_line_no_newline)

lemma set_drop_repeated_blanks: "set (drop_repeated_blanks pb xs) \<subseteq> set xs"
  by (induction xs arbitrary: pb) auto

text \<open>
  Claim C9. \<open>format\<close> is a total function: it is defined by terminating recursion, has no
  error result, and returns the empty text for the empty text. It is idempotent: formatting
  a formatted text changes nothing.
\<close>

theorem format_idempotent: "format (format t) = format t \<and> format [] = []"
proof -
  let ?E = "emit_lines False (split_lines t)"
  let ?L = "drop_repeated_blanks False ?E"
  have ne: "?L \<noteq> []"
    by (intro drop_repeated_blanks_nonempty emit_lines_nonempty split_lines_nonempty)
  have "\<forall>l\<in>set ?E. 10 \<notin> set l"
    by (intro emit_lines_no_newline ballI split_lines_no_newline)
  with set_drop_repeated_blanks[of False ?E] have nl: "\<forall>l\<in>set ?L. 10 \<notin> set l" by blast
  have split: "split_lines (join_lines ?L) = ?L" by (rule split_join[OF ne nl])
  have "settled False ?L"
    by (rule settled_drop_repeated_blanks[OF settled_emit_lines]) simp_all
  then have emit: "emit_lines False ?L = ?L" by (rule emit_lines_id)
  have "format (format t) = join_lines (drop_repeated_blanks False (emit_lines False
          (split_lines (join_lines ?L))))"
    by (simp add: format_def)
  also have "\<dots> = join_lines ?L"
    by (simp only: split emit drop_repeated_blanks_idem)
  also have "\<dots> = format t" by (simp add: format_def)
  finally have "format (format t) = format t" .
  moreover have "format [] = []"
    by (simp add: format_def normalize_line_Nil blank_Nil heading_level_Nil)
  ultimately show ?thesis ..
qed



end
